theory Spec2Isabelle
  imports Main "HOL-Library.Word"
begin

unbundle bit_operations_syntax

section \<open>toobz: unpacking an EFI zboot image (unpack.go)\<close>

text \<open>
  A shallow embedding of \<^verbatim>\<open>unpack.go\<close>. Byte slices are lists of 8-bit words, the
  \<^verbatim>\<open>uint32\<close> header fields are 32-bit words (their addition wraps), Go's \<^verbatim>\<open>int\<close> is the
  64-bit one of the platforms the tool targets, so a converted \<^verbatim>\<open>uint32\<close> is never negative.
  Every error return is a value of the type \<open>error\<close>: a function that returns a result or
  an error returns \<open>error + 'a\<close>, one that returns only an error returns \<open>error option\<close>
  (\<open>None\<close> for \<^verbatim>\<open>nil\<close>). \<^verbatim>\<open>ReadInfo\<close> also returns the reader it advanced, \<^verbatim>\<open>Write\<close> the
  output sink it wrote to.
\<close>

type_synonym byte = "8 word"
type_synonym uint32 = "32 word"

subsection \<open>Errors\<close>

text \<open>
  One constructor per error the package returns. \<open>ContentMismatch name l r\<close> is the join of
  \<^verbatim>\<open>ErrIsInvalidContent\<close> with the message \<^verbatim>\<open>"%s invalid data: %s != %s"\<close>; \<open>EOF\<close> and
  \<open>ErrUnexpectedEOF\<close> are the two errors of package \<^verbatim>\<open>io\<close> for an input that ends too early;
  \<open>DecompressError\<close> and \<open>WriteError\<close> wrap whatever the decompressor or the output sink
  returned. \<open>PanicSliceBounds h c\<close> is not an error value of the program: it stands for the
  run-time panic of a slice expression whose upper bound \<open>h\<close> exceeds the capacity \<open>c\<close>.
\<close>

datatype ('d, 'w) error =
    ReaderIsNil
  | EOF
  | ErrUnexpectedEOF
  | ContentMismatch string string string
  | PayloadZero
  | BeyondSize
  | InvalidSeekZero
  | NoBody
  | UnknownCompressionType string
  | DecompressError 'd
  | InvalidResponsePayload nat
  | UnknownPayloadType "byte list"
  | WriteError 'w
  | PanicSliceBounds nat nat

subsection \<open>Datums\<close>

record Datum =
  payload :: string
  padding :: int
  addByte :: byte
  raw :: "byte list"

definition ARM64MagicOffset :: nat where
  "ARM64MagicOffset = 56"

definition LinuxMagic :: Datum where
  "LinuxMagic = \<lparr>payload = ''Linux'', padding = 0, addByte = 0, raw = [205, 35, 130, 129]\<rparr>"

definition ARM :: Datum where
  "ARM = \<lparr>payload = ''ARM'', padding = 0, addByte = 100, raw = []\<rparr>"

definition RISC :: Datum where
  "RISC = \<lparr>payload = ''RSC'', padding = 0, addByte = 5, raw = []\<rparr>"

definition Gzip :: Datum where
  "Gzip = \<lparr>payload = ''gzip'', padding = 32, addByte = 0, raw = []\<rparr>"

definition MSDOSMagic :: Datum where
  "MSDOSMagic = \<lparr>payload = ''MZ'', padding = 0, addByte = 0, raw = []\<rparr>"

definition ZImg :: Datum where
  "ZImg = \<lparr>payload = ''zimg'', padding = 0, addByte = 0, raw = []\<rparr>"

definition Value :: "Datum \<Rightarrow> string" where
  "Value d = payload d"

text \<open>
  \<^verbatim>\<open>toUint8Padded\<close>: the first loop converts each character of the string to a byte (the
  payloads of the registry are ASCII, one character per byte), the second appends zero bytes
  while the result is shorter than \<open>to\<close>.
\<close>

function pad_loop :: "byte list \<Rightarrow> int \<Rightarrow> byte list" where
  "pad_loop r to = (if int (length r) < to then pad_loop (r @ [0]) to else r)"
  by pat_completeness auto
termination
  by (relation "measure (\<lambda>(r, to). nat (to - int (length r)))") auto

declare pad_loop.simps [simp del]

definition toUint8Padded :: "string \<Rightarrow> int \<Rightarrow> byte list" where
  "toUint8Padded s to = pad_loop (map of_char s) to"

definition Data :: "Datum \<Rightarrow> byte list" where
  "Data d =
     (if length (raw d) > 0 then raw d
      else let b = toUint8Padded (payload d) (padding d)
           in if addByte d > 0 then b @ [addByte d] else b)"

subsection \<open>Rendering a byte slice\<close>

text \<open>
  \<^verbatim>\<open>fmt.Sprintf("%v", b)\<close> for a byte slice \<open>b\<close>: the bytes in decimal, separated by one
  space, between square brackets.
\<close>

definition digit_char :: "nat \<Rightarrow> char" where
  "digit_char d = char_of (48 + d)"

function fmt_d :: "nat \<Rightarrow> string" where
  "fmt_d n = (if n < 10 then [digit_char n] else fmt_d (n div 10) @ [digit_char (n mod 10)])"
  by pat_completeness auto
termination
  by (relation "measure id") auto

declare fmt_d.simps [simp del]

fun fmt_elems :: "byte list \<Rightarrow> string" where
  "fmt_elems [] = []"
| "fmt_elems [b] = fmt_d (unat b)"
| "fmt_elems (b # c # bs) = fmt_d (unat b) @ CHR '' '' # fmt_elems (c # bs)"

definition Sprintf_v :: "byte list \<Rightarrow> string" where
  "Sprintf_v bs = CHR ''['' # fmt_elems bs @ '']''"

subsection \<open>Checks\<close>

record check =
  left :: "byte list"
  right :: Datum

definition verify :: "check \<Rightarrow> ('d, 'w) error option" where
  "verify c =
     (let l = Sprintf_v (left c); r = Sprintf_v (Data (right c))
      in if l \<noteq> r then Some (ContentMismatch (Value (right c)) l r) else None)"

text \<open>\<^verbatim>\<open>errors.Is(err, ErrIsInvalidContent)\<close>\<close>

fun errors_Is_ErrIsInvalidContent :: "('d, 'w) error \<Rightarrow> bool" where
  "errors_Is_ErrIsInvalidContent (ContentMismatch n l r) = True"
| "errors_Is_ErrIsInvalidContent e = False"

subsection \<open>The header and its decoding\<close>

text \<open>
  The fields of \<^verbatim>\<open>Header\<close> in declaration order; the three magic fields carry the suffix
  \<open>_field\<close> because the datums they are compared with have the same names, and the field
  \<^verbatim>\<open>Header\<close> of \<^verbatim>\<open>BootInfo\<close> is \<open>header\<close>. The fixed-size byte arrays are lists;
  \<open>decode_Header\<close> gives them the lengths 2, 2, 4, 8, 32 and 4.
\<close>

record Header =
  MSDOSMagic_field :: "byte list"
  Reserved0 :: "byte list"
  ZImg_field :: "byte list"
  PayloadOffset :: uint32
  PayloadSize :: uint32
  Reserved1 :: "byte list"
  CompressionType :: "byte list"
  LinuxMagic_field :: "byte list"
  PEHeaderOffset :: uint32

record Unpacker =
  Decompress :: bool
  ParseBody :: bool

record BootInfo =
  header :: Header
  body :: "byte list"
  unpacker :: Unpacker

text \<open>
  \<^verbatim>\<open>bytes.Reader\<close>: the underlying slice and the current read position. \<open>Len\<close> is the
  number of bytes of the unread portion, \<open>Size\<close> the length of the underlying slice.
\<close>

record Reader =
  rd_s :: "byte list"
  rd_i :: nat

definition NewReader :: "byte list \<Rightarrow> Reader" where
  "NewReader b = \<lparr>rd_s = b, rd_i = 0\<rparr>"

definition Len :: "Reader \<Rightarrow> nat" where
  "Len r = (if rd_i r \<ge> length (rd_s r) then 0 else length (rd_s r) - rd_i r)"

text \<open>
  \<^verbatim>\<open>io.ReadFull(r, buf)\<close> on a \<^verbatim>\<open>bytes.Reader\<close>, for a buffer of \<open>n > 0\<close> bytes: it reads
  exactly \<open>n\<close> bytes and advances the reader; the error is \<open>EOF\<close> if no byte was left and
  \<open>ErrUnexpectedEOF\<close> if the input ended after some but not all of the bytes (the reader is
  then at its end).
\<close>

definition ReadFull :: "Reader \<Rightarrow> nat \<Rightarrow> (('d, 'w) error + byte list) \<times> Reader" where
  "ReadFull r n =
     (let avail = Len r
      in if n \<le> avail then (Inr (take n (drop (rd_i r) (rd_s r))), r\<lparr>rd_i := rd_i r + n\<rparr>)
         else if avail = 0 then (Inl EOF, r)
         else (Inl ErrUnexpectedEOF, r\<lparr>rd_i := rd_i r + avail\<rparr>))"

text \<open>
  \<^verbatim>\<open>r.ReadAt(b, off)\<close> for a buffer \<open>b\<close> of \<open>m\<close> zero bytes and \<open>off \<ge> 0\<close>: the number of
  bytes copied, the buffer afterwards and the error. It reads at the absolute offset \<open>off\<close> of
  the underlying slice and leaves the read position alone.
\<close>

definition ReadAt :: "Reader \<Rightarrow> nat \<Rightarrow> nat \<Rightarrow> nat \<times> byte list \<times> ('d, 'w) error option" where
  "ReadAt r m off =
     (if off \<ge> length (rd_s r) then (0, replicate m 0, Some EOF)
      else let chunk = take m (drop off (rd_s r)); n = length chunk
           in (n, chunk @ replicate (m - n) 0, if n < m then Some EOF else None))"

text \<open>\<^verbatim>\<open>binary.LittleEndian.Uint32\<close>, applied to the 4-byte fields of the header.\<close>

definition le_uint32 :: "byte list \<Rightarrow> uint32" where
  "le_uint32 b =
     ucast (b ! 0) OR push_bit 8 (ucast (b ! 1)) OR push_bit 16 (ucast (b ! 2))
       OR push_bit 24 (ucast (b ! 3))"

definition Header_size :: nat where
  "Header_size = 2 + 2 + 4 + 4 + 4 + 8 + 32 + 4 + 4"

definition decode_Header :: "byte list \<Rightarrow> Header" where
  "decode_Header d =
     \<lparr>MSDOSMagic_field = take 2 d,
      Reserved0 = take 2 (drop 2 d),
      ZImg_field = take 4 (drop 4 d),
      PayloadOffset = le_uint32 (take 4 (drop 8 d)),
      PayloadSize = le_uint32 (take 4 (drop 12 d)),
      Reserved1 = take 8 (drop 16 d),
      CompressionType = take 32 (drop 24 d),
      LinuxMagic_field = take 4 (drop 56 d),
      PEHeaderOffset = le_uint32 (take 4 (drop 60 d))\<rparr>"

text \<open>
  \<^verbatim>\<open>binary.Read(r, binary.LittleEndian, &hdr)\<close>: read the 64 bytes of the struct in full,
  then decode the fields in declaration order, without padding.
\<close>

definition binary_Read :: "Reader \<Rightarrow> (('d, 'w) error + Header) \<times> Reader" where
  "binary_Read r =
     (case ReadFull r Header_size of
        (Inl e, r') \<Rightarrow> (Inl e, r')
      | (Inr d, r') \<Rightarrow> (Inr (decode_Header d), r'))"

subsection \<open>ReadInfo\<close>

text \<open>The loop over the three checks of \<^verbatim>\<open>ReadInfo\<close>: the first failing check ends it.\<close>

fun verify_loop :: "check list \<Rightarrow> ('d, 'w) error option" where
  "verify_loop [] = None"
| "verify_loop (c # cs) = (case verify c of Some err \<Rightarrow> Some err | None \<Rightarrow> verify_loop cs)"

definition ReadInfo ::
  "Unpacker \<Rightarrow> Reader option \<Rightarrow> (('d, 'w) error + BootInfo) \<times> Reader option" where
  "ReadInfo u ro =
     (case ro of
        None \<Rightarrow> (Inl ReaderIsNil, None)
      | Some r \<Rightarrow>
         (case binary_Read r of
            (Inl err, r') \<Rightarrow> (Inl err, Some r')
          | (Inr hdr, r') \<Rightarrow>
             (case verify_loop
                     [\<lparr>left = MSDOSMagic_field hdr, right = MSDOSMagic\<rparr>,
                      \<lparr>left = LinuxMagic_field hdr, right = LinuxMagic\<rparr>,
                      \<lparr>left = ZImg_field hdr, right = ZImg\<rparr>] of
                Some err \<Rightarrow> (Inl err, Some r')
              | None \<Rightarrow>
                 if PayloadOffset hdr = 0 \<or> PayloadSize hdr = 0 then (Inl PayloadZero, Some r')
                 else let size = Len r'
                      in if unat (PayloadOffset hdr + PayloadSize hdr) > size
                         then (Inl BeyondSize, Some r')
                         else if ParseBody u
                         then (case ReadAt r' (unat (PayloadSize hdr)) (unat (PayloadOffset hdr)) of
                                 (n, sub, Some err) \<Rightarrow> (Inl err, Some r')
                               | (n, sub, None) \<Rightarrow>
                                  if n = 0 then (Inl InvalidSeekZero, Some r')
                                  else (Inr \<lparr>header = hdr, body = sub, unpacker = u\<rparr>, Some r'))
                         else (Inr \<lparr>header = hdr, body = [], unpacker = u\<rparr>, Some r'))))"

definition Body :: "BootInfo \<Rightarrow> byte list" where
  "Body info = body info"

subsection \<open>Write\<close>

text \<open>
  A Go slice as \<^verbatim>\<open>Write\<close> sees the result of a decompressor: its \<open>elems\<close> (the \<^verbatim>\<open>len\<close>
  bytes) and the \<open>spare\<close> bytes of the backing array between its length and its capacity. A
  slice expression \<^verbatim>\<open>sub[lo:hi]\<close> is checked against the capacity, not the length: it panics
  if \<open>hi\<close> exceeds the capacity and otherwise yields the bytes at \<open>lo, \<dots>, hi - 1\<close> of the
  backing array, spare bytes included.
\<close>

record goslice =
  elems :: "byte list"
  spare :: "byte list"

definition slice_expr :: "goslice \<Rightarrow> nat \<Rightarrow> nat \<Rightarrow> ('d, 'w) error + byte list" where
  "slice_expr sl lo hi =
     (let c = length (elems sl) + length (spare sl)
      in if hi > c then Inl (PanicSliceBounds hi c)
         else Inr (drop lo (take hi (elems sl @ spare sl))))"

text \<open>
  The table of decompressors is a list of pairs of a tag (\<^verbatim>\<open>bodyType\<close>) and a function
  (\<^verbatim>\<open>fxn\<close>). The one function of the table, \<^verbatim>\<open>decompressGunzip\<close>, is the standard library's
  gzip reader followed by \<^verbatim>\<open>io.ReadAll\<close>; it is a parameter \<open>gunzip\<close> of the model. The loop
  carries \<open>found\<close> and \<open>sub\<close>.
\<close>

type_synonym 'd decompressor = "byte list \<times> (byte list \<Rightarrow> 'd + goslice)"

fun decompress_loop ::
  "string \<Rightarrow> 'd decompressor list \<Rightarrow> bool \<times> goslice \<Rightarrow> ('d, 'w) error + bool \<times> goslice" where
  "decompress_loop t [] (found, sub) = Inr (found, sub)"
| "decompress_loop t (v # vs) (found, sub) =
     (if t = Sprintf_v (fst v)
      then (case (snd v) (elems sub) of
              Inl err \<Rightarrow> Inl (DecompressError err)
            | Inr d \<Rightarrow> decompress_loop t vs (True, d))
      else decompress_loop t vs (found, sub))"

text \<open>The loop over the architecture datums: \<open>Inr knownType\<close>, or the error returned.\<close>

fun known_type_loop :: "byte list \<Rightarrow> Datum list \<Rightarrow> ('d, 'w) error + bool" where
  "known_type_loop val [] = Inr False"
| "known_type_loop val (c # cs) =
     (case verify \<lparr>left = val, right = c\<rparr> of
        None \<Rightarrow> Inr True
      | Some err \<Rightarrow>
         if \<not> errors_Is_ErrIsInvalidContent err then Inl err else known_type_loop val cs)"

text \<open>
  The decompression branch of \<^verbatim>\<open>Write\<close> (the body of \<^verbatim>\<open>if info.unpacker.Decompress\<close>):
  the new value of \<open>sub\<close>, or the error returned.
\<close>

definition decompress_branch ::
  "Header \<Rightarrow> (byte list \<Rightarrow> 'd + goslice) \<Rightarrow> goslice \<Rightarrow> ('d, 'w) error + goslice" where
  "decompress_branch hdr gunzip sub0 =
     (let t = Sprintf_v (CompressionType hdr)
      in case decompress_loop t [(Data Gzip, gunzip)] (False, sub0) of
           Inl err \<Rightarrow> Inl err
         | Inr (found, sub) \<Rightarrow>
            if \<not> found then Inl (UnknownCompressionType t)
            else let subSize = length (elems sub)
                 in if subSize < ARM64MagicOffset then Inl (InvalidResponsePayload subSize)
                    else (case slice_expr sub ARM64MagicOffset (ARM64MagicOffset + 4) of
                            Inl p \<Rightarrow> Inl p
                          | Inr val \<Rightarrow>
                             (case known_type_loop val [ARM, RISC] of
                                Inl err \<Rightarrow> Inl err
                              | Inr knownType \<Rightarrow>
                                 if \<not> knownType then Inl (UnknownPayloadType val)
                                 else Inr sub)))"

text \<open>
  \<^verbatim>\<open>Write\<close>. The output sink is a state \<open>w\<close> with its method \<open>wr\<close>, which takes the bytes of
  one call of \<^verbatim>\<open>w.Write\<close> and returns the new state and the error, if any. The body of a
  \<^verbatim>\<open>BootInfo\<close> is nil or was made by \<^verbatim>\<open>make\<close>, so its capacity is its length.
\<close>

definition Write ::
  "BootInfo \<Rightarrow> (byte list \<Rightarrow> 'd + goslice) \<Rightarrow> ('k \<Rightarrow> byte list \<Rightarrow> 'k \<times> 'w option) \<Rightarrow> 'k
     \<Rightarrow> 'k \<times> ('d, 'w) error option" where
  "Write info gunzip wr w =
     (if length (body info) = 0 then (w, Some NoBody)
      else let sub0 = \<lparr>elems = body info, spare = []\<rparr>
           in case (if Decompress (unpacker info)
                    then decompress_branch (header info) gunzip sub0
                    else Inr sub0) of
                Inl err \<Rightarrow> (w, Some err)
              | Inr sub \<Rightarrow>
                 (case wr w (elems sub) of (w', err) \<Rightarrow> (w', map_option WriteError err)))"

subsection \<open>Concrete inputs\<close>

text \<open>
  Buffers on which the functions are evaluated below. Each starts with a 64-byte header, one
  field per line: DOS magic, reserved, zimg tag, payload offset, payload size, reserved,
  compression type (two lines), Linux magic, PE header offset.
\<close>

definition mismatch_buf :: "byte list" where
  "mismatch_buf =
     [77, 90,
      0, 0,
      0, 0, 0, 0,
      64, 0, 0, 0,
      4, 0, 0, 0,
      0, 0, 0, 0, 0, 0, 0, 0,
      103, 122, 105, 112, 0, 0, 0, 0, 0, 0, 0, 0, 0, 0, 0, 0,
      0, 0, 0, 0, 0, 0, 0, 0, 0, 0, 0, 0, 0, 0, 0, 0,
      0, 0, 0, 0,
      0, 0, 0, 0]"

definition zero_offset_buf :: "byte list" where
  "zero_offset_buf =
     [77, 90,
      0, 0,
      122, 105, 109, 103,
      0, 0, 0, 0,
      4, 0, 0, 0,
      0, 0, 0, 0, 0, 0, 0, 0,
      103, 122, 105, 112, 0, 0, 0, 0, 0, 0, 0, 0, 0, 0, 0, 0,
      0, 0, 0, 0, 0, 0, 0, 0, 0, 0, 0, 0, 0, 0, 0, 0,
      205, 35, 130, 129,
      0, 0, 0, 0]"

definition payload_buf :: "byte list" where
  "payload_buf =
     [77, 90,
      0, 0,
      122, 105, 109, 103,
      64, 0, 0, 0,
      4, 0, 0, 0,
      0, 0, 0, 0, 0, 0, 0, 0,
      103, 122, 105, 112, 0, 0, 0, 0, 0, 0, 0, 0, 0, 0, 0, 0,
      0, 0, 0, 0, 0, 0, 0, 0, 0, 0, 0, 0, 0, 0, 0, 0,
      205, 35, 130, 129,
      0, 0, 0, 0,
      1, 2, 3, 4]
       @ replicate 64 0"

definition payload_buf_alt :: "byte list" where
  "payload_buf_alt =
     [77, 90,
      1, 2,
      122, 105, 109, 103,
      64, 0, 0, 0,
      4, 0, 0, 0,
      9, 9, 9, 9, 9, 9, 9, 9,
      103, 122, 105, 112, 0, 0, 0, 0, 0, 0, 0, 0, 0, 0, 0, 0,
      0, 0, 0, 0, 0, 0, 0, 0, 0, 0, 0, 0, 0, 0, 0, 0,
      205, 35, 130, 129,
      7, 7, 7, 7,
      1, 2, 3, 4]
       @ replicate 64 0"

definition wrap_buf :: "byte list" where
  "wrap_buf =
     [77, 90,
      0, 0,
      122, 105, 109, 103,
      255, 255, 255, 255,
      2, 0, 0, 0,
      0, 0, 0, 0, 0, 0, 0, 0,
      103, 122, 105, 112, 0, 0, 0, 0, 0, 0, 0, 0, 0, 0, 0, 0,
      0, 0, 0, 0, 0, 0, 0, 0, 0, 0, 0, 0, 0, 0, 0, 0,
      205, 35, 130, 129,
      0, 0, 0, 0,
      0]"

definition exact_fit_buf :: "byte list" where
  "exact_fit_buf =
     [77, 90,
      0, 0,
      122, 105, 109, 103,
      64, 0, 0, 0,
      36, 0, 0, 0,
      0, 0, 0, 0, 0, 0, 0, 0,
      103, 122, 105, 112, 0, 0, 0, 0, 0, 0, 0, 0, 0, 0, 0, 0,
      0, 0, 0, 0, 0, 0, 0, 0, 0, 0, 0, 0, 0, 0, 0, 0,
      205, 35, 130, 129,
      0, 0, 0, 0]
       @ replicate 36 0"

definition overlap_buf_a :: "byte list" where
  "overlap_buf_a =
     [77, 90,
      0, 0,
      122, 105, 109, 103,
      2, 0, 0, 0,
      2, 0, 0, 0,
      0, 0, 0, 0, 0, 0, 0, 0,
      103, 122, 105, 112, 0, 0, 0, 0, 0, 0, 0, 0, 0, 0, 0, 0,
      0, 0, 0, 0, 0, 0, 0, 0, 0, 0, 0, 0, 0, 0, 0, 0,
      205, 35, 130, 129,
      0, 0, 0, 0,
      0, 0, 0, 0]"

definition overlap_buf_b :: "byte list" where
  "overlap_buf_b =
     [77, 90,
      1, 1,
      122, 105, 109, 103,
      2, 0, 0, 0,
      2, 0, 0, 0,
      0, 0, 0, 0, 0, 0, 0, 0,
      103, 122, 105, 112, 0, 0, 0, 0, 0, 0, 0, 0, 0, 0, 0, 0,
      0, 0, 0, 0, 0, 0, 0, 0, 0, 0, 0, 0, 0, 0, 0, 0,
      205, 35, 130, 129,
      0, 0, 0, 0,
      0, 0, 0, 0]"

text \<open>
  Decoded results for \<^verbatim>\<open>Write\<close>: a one-byte body behind a header with the given
  compression type, with or without decompression requested.
\<close>

definition info_with :: "byte list \<Rightarrow> bool \<Rightarrow> BootInfo" where
  "info_with tag dec =
     \<lparr>header = \<lparr>MSDOSMagic_field = [77, 90], Reserved0 = [0, 0],
                 ZImg_field = [122, 105, 109, 103], PayloadOffset = 64, PayloadSize = 1,
                 Reserved1 = replicate 8 0, CompressionType = tag,
                 LinuxMagic_field = [205, 35, 130, 129], PEHeaderOffset = 0\<rparr>,
      body = [1],
      unpacker = \<lparr>Decompress = dec, ParseBody = True\<rparr>\<rparr>"

text \<open>An output sink that records the bytes of every call and never fails.\<close>

definition log_sink :: "byte list list \<Rightarrow> byte list \<Rightarrow> byte list list \<times> unit option" where
  "log_sink w bs = (w @ [bs], None)"

text \<open>
  A decompressor whose result is \<open>n\<close> zero bytes in a backing array with the given spare
  bytes (\<^verbatim>\<open>io.ReadAll\<close> starts with a capacity of 512 bytes, all zero).
\<close>

definition gunzip_to :: "nat \<Rightarrow> byte list \<Rightarrow> byte list \<Rightarrow> unit + goslice" where
  "gunzip_to n sp input = Inr \<lparr>elems = replicate n 0, spare = sp\<rparr>"

subsection \<open>The unchecked header regions\<close>

text \<open>
  The byte offsets the layout calls unchecked: the reserved bytes 2-3 and 16-23 and the PE
  header offset, bytes 60-63. Two buffers \<open>differ_only_unchecked\<close> if they have the same
  length and agree at every other offset.
\<close>

definition unchecked_offsets :: "nat set" where
  "unchecked_offsets = {2, 3} \<union> {16..<24} \<union> {60..<64}"

definition differ_only_unchecked :: "byte list \<Rightarrow> byte list \<Rightarrow> bool" where
  "differ_only_unchecked a b \<longleftrightarrow>
     length a = length b \<and> (\<forall>i < length a. i \<notin> unchecked_offsets \<longrightarrow> a ! i = b ! i)"

section \<open>The registry\<close>

lemma pad_loop_replicate:
  "pad_loop r to = r @ replicate (nat (to - int (length r))) 0"
proof (induction r to rule: pad_loop.induct)
  case (1 r to)
  show ?case
  proof (cases "int (length r) < to")
    case True
    then have "nat (to - int (length r)) = Suc (nat (to - int (length (r @ [0::byte]))))"
      by simp
    with True "1" show ?thesis
      by (subst pad_loop.simps) (simp add: replicate_app_Cons_same)
  next
    case False
    then show ?thesis
      by (subst pad_loop.simps) simp
  qed
qed

lemma Data_ARM: "Data ARM = [65, 82, 77, 100]"
  by (simp add: Data_def ARM_def toUint8Padded_def pad_loop_replicate)

lemma Data_RISC: "Data RISC = [82, 83, 67, 5]"
  by (simp add: Data_def RISC_def toUint8Padded_def pad_loop_replicate)

lemma Data_MSDOSMagic: "Data MSDOSMagic = [77, 90]"
  by (simp add: Data_def MSDOSMagic_def toUint8Padded_def pad_loop_replicate)

lemma Data_ZImg: "Data ZImg = [122, 105, 109, 103]"
  by (simp add: Data_def ZImg_def toUint8Padded_def pad_loop_replicate)

lemma Data_LinuxMagic: "Data LinuxMagic = [205, 35, 130, 129]"
  by (simp add: Data_def LinuxMagic_def)

lemma Data_Gzip: "Data Gzip = [103, 122, 105, 112] @ replicate 28 0"
  by (simp add: Data_def Gzip_def toUint8Padded_def pad_loop_replicate numeral_eq_Suc)

text \<open>
  C7. The registry datums produce the canonical byte sequences: \<open>ARM\<close> gives
  \<open>[65, 82, 77, 100]\<close>, \<open>MSDOSMagic\<close> gives \<open>[77, 90]\<close>, \<open>Gzip\<close> gives
  \<open>[103, 122, 105, 112]\<close> followed by 28 zero bytes (32 bytes in all) and \<open>LinuxMagic\<close>
  gives \<open>[205, 35, 130, 129]\<close>. \<open>Data\<close> is a function of the datum alone, so every call
  yields the same bytes.
\<close>

theorem registry_data:
  "Data ARM = [65, 82, 77, 100]
   \<and> Data MSDOSMagic = [77, 90]
   \<and> Data Gzip = [103, 122, 105, 112] @ replicate 28 0
   \<and> length (Data Gzip) = 32
   \<and> Data LinuxMagic = [205, 35, 130, 129]"
  by (simp add: Data_ARM Data_MSDOSMagic Data_Gzip Data_LinuxMagic)

section \<open>Comparing rendered byte slices\<close>

text \<open>
  \<^verbatim>\<open>verify\<close> compares the renderings of the two byte slices, not the slices. The rendering
  is injective (a decimal numeral has no space and determines its number), so the check
  passes exactly when the slices are equal.
\<close>

lemma of_char_digit_char: "d < 10 \<Longrightarrow> (of_char (digit_char d) :: nat) = 48 + d"
proof -
  assume "d < 10"
  then have "(48 + d) mod 256 = 48 + d" by simp
  then show ?thesis
    unfolding digit_char_def by (simp only: of_char_of)
qed

lemma digit_char_inj: "a < 10 \<Longrightarrow> b < 10 \<Longrightarrow> digit_char a = digit_char b \<Longrightarrow> a = b"
proof -
  assume a: "a < 10" and b: "b < 10" and e: "digit_char a = digit_char b"
  have "(of_char (digit_char a) :: nat) = of_char (digit_char b)"
    by (simp only: e)
  then have "48 + a = 48 + b"
    by (simp only: of_char_digit_char [OF a] of_char_digit_char [OF b])
  then show ?thesis by simp
qed

lemma digit_char_not_space: "d < 10 \<Longrightarrow> digit_char d \<noteq> CHR '' ''"
proof
  assume "d < 10" and "digit_char d = CHR '' ''"
  then have "(of_char (CHR '' '') :: nat) = 48 + d"
    using of_char_digit_char [of d] by simp
  then show False by simp
qed

lemma fmt_d_nonempty: "fmt_d n \<noteq> []"
  by (subst fmt_d.simps) simp

lemma fmt_d_no_space: "CHR '' '' \<notin> set (fmt_d n)"
proof (induction n rule: fmt_d.induct)
  case (1 n)
  show ?case
  proof (cases "n < 10")
    case True
    then show ?thesis
      using digit_char_not_space [of n] by (subst fmt_d.simps) auto
  next
    case False
    with "1" have "CHR '' '' \<notin> set (fmt_d (n div 10))" by simp
    moreover have "digit_char (n mod 10) \<noteq> CHR '' ''"
      by (rule digit_char_not_space) simp
    ultimately show ?thesis using False
      by (subst fmt_d.simps) auto
  qed
qed

lemma fmt_d_inj: "fmt_d n = fmt_d m \<Longrightarrow> n = m"
proof (induction n arbitrary: m rule: fmt_d.induct)
  case (1 n)
  show ?case
  proof (cases "n < 10")
    case n: True
    show ?thesis
    proof (cases "m < 10")
      case True
      with n "1.prems" show ?thesis
        by (simp add: fmt_d.simps [of n] fmt_d.simps [of m] digit_char_inj)
    next
      case False
      with n "1.prems" show ?thesis
        using fmt_d_nonempty [of "m div 10"]
        by (simp add: fmt_d.simps [of n] fmt_d.simps [of m])
    qed
  next
    case n: False
    show ?thesis
    proof (cases "m < 10")
      case True
      with n "1.prems" show ?thesis
        using fmt_d_nonempty [of "n div 10"]
        by (simp add: fmt_d.simps [of n] fmt_d.simps [of m])
    next
      case False
      with n "1.prems" have e: "fmt_d (n div 10) = fmt_d (m div 10)"
        and d: "digit_char (n mod 10) = digit_char (m mod 10)"
        by (simp_all add: fmt_d.simps [of n] fmt_d.simps [of m])
      from "1.IH" [OF n e] have "n div 10 = m div 10" .
      moreover from d have "n mod 10 = m mod 10"
        by (intro digit_char_inj) simp_all
      ultimately show ?thesis
        by (metis div_mult_mod_eq)
    qed
  qed
qed

lemma takeWhile_fmt_d:
  "takeWhile (\<lambda>c. c \<noteq> CHR '' '') (fmt_d n @ CHR '' '' # u) = fmt_d n"
  using fmt_d_no_space [of n] by (subst takeWhile_append2) auto

lemma fmt_d_sep_inj:
  assumes "fmt_d n @ CHR '' '' # u = fmt_d m @ CHR '' '' # v"
  shows "n = m \<and> u = v"
proof -
  from assms have "takeWhile (\<lambda>c. c \<noteq> CHR '' '') (fmt_d n @ CHR '' '' # u)
      = takeWhile (\<lambda>c. c \<noteq> CHR '' '') (fmt_d m @ CHR '' '' # v)"
    by (rule arg_cong)
  then have "fmt_d n = fmt_d m"
    by (simp only: takeWhile_fmt_d)
  with assms show ?thesis
    by (simp add: fmt_d_inj)
qed

lemma fmt_d_not_sep: "fmt_d n \<noteq> fmt_d m @ CHR '' '' # v"
proof
  assume "fmt_d n = fmt_d m @ CHR '' '' # v"
  then have "CHR '' '' \<in> set (fmt_d n)" by simp
  with fmt_d_no_space [of n] show False by simp
qed

lemma fmt_elems_inj: "fmt_elems xs = fmt_elems ys \<Longrightarrow> xs = ys"
proof (induction xs arbitrary: ys rule: fmt_elems.induct)
  case 1
  then show ?case
    by (cases ys rule: fmt_elems.cases) (simp_all add: fmt_d_nonempty [symmetric])
next
  case (2 b)
  show ?case
  proof (cases ys rule: fmt_elems.cases)
    case 1
    with "2.prems" show ?thesis by (simp add: fmt_d_nonempty)
  next
    case (2 b')
    with "2.prems" have "unat b = unat b'"
      by (simp add: fmt_d_inj)
    with 2 show ?thesis by (simp add: word_unat_eq_iff)
  next
    case (3 b' c' bs')
    with "2.prems" show ?thesis
      using fmt_d_not_sep [of "unat b" "unat b'"] by simp
  qed
next
  case (3 b c bs)
  show ?case
  proof (cases ys rule: fmt_elems.cases)
    case 1
    with "3.prems" show ?thesis by (simp add: fmt_d_nonempty)
  next
    case (2 b')
    with "3.prems" show ?thesis
      using fmt_d_not_sep [of "unat b'" "unat b" "fmt_elems (c # bs)"] by simp
  next
    case (3 b' c' bs')
    with "3.prems" have "unat b = unat b' \<and> fmt_elems (c # bs) = fmt_elems (c' # bs')"
      by (auto dest: fmt_d_sep_inj)
    with "3.IH" [of "c' # bs'"] 3 show ?thesis by (simp add: word_unat_eq_iff)
  qed
qed

lemma Sprintf_v_inj: "Sprintf_v xs = Sprintf_v ys \<longleftrightarrow> xs = ys"
  by (auto simp: Sprintf_v_def dest: fmt_elems_inj)

lemma verify_None_iff: "verify c = None \<longleftrightarrow> left c = Data (right c)"
  by (simp add: verify_def Let_def Sprintf_v_inj)

lemma verify_Some_iff:
  "verify c = Some e \<longleftrightarrow> left c \<noteq> Data (right c) \<and>
     e = ContentMismatch (Value (right c)) (Sprintf_v (left c)) (Sprintf_v (Data (right c)))"
  by (auto simp: verify_def Let_def Sprintf_v_inj)

section \<open>What ReadInfo computes\<close>

text \<open>
  On a fresh reader over a buffer of at least 64 bytes, \<^verbatim>\<open>ReadInfo\<close> is a chain of tests on
  the decoded header and the buffer length, stated here once for the theorems that follow.
\<close>

lemma Header_size_64: "Header_size = 64"
  by (simp add: Header_size_def)

lemma binary_Read_full:
  "Header_size \<le> length b \<Longrightarrow>
   binary_Read (NewReader b)
     = (Inr (decode_Header (take Header_size b)), \<lparr>rd_s = b, rd_i = Header_size\<rparr>)"
  by (auto simp: binary_Read_def ReadFull_def Len_def NewReader_def Let_def Header_size_64)

lemma decode_Header_take:
  "decode_Header (take Header_size b) = decode_Header b"
  by (simp add: decode_Header_def Header_size_64 drop_take)

lemma ReadAt_in_range:
  "off + m \<le> length s \<Longrightarrow> 0 < m \<Longrightarrow>
   ReadAt \<lparr>rd_s = s, rd_i = k\<rparr> m off = (m, take m (drop off s), None)"
  by (simp add: ReadAt_def Let_def)

lemma ReadAt_beyond:
  "length s < off + m \<Longrightarrow>
   ReadAt \<lparr>rd_s = s, rd_i = k\<rparr> m off
     = (length (take m (drop off s)),
        take m (drop off s) @ replicate (m - length (take m (drop off s))) 0, Some EOF)"
  by (auto simp: ReadAt_def Let_def)

lemma verify_eq:
  "verify c =
     (if left c = Data (right c) then None
      else Some (ContentMismatch (Value (right c)) (Sprintf_v (left c))
                   (Sprintf_v (Data (right c)))))"
  by (simp add: verify_def Let_def Sprintf_v_inj)

lemma ReadInfo_after_header:
  assumes "Header_size \<le> length b"
  shows "fst (ReadInfo u (Some (NewReader b))) =
    (if MSDOSMagic_field (decode_Header b) \<noteq> Data MSDOSMagic
     then Inl (ContentMismatch (Value MSDOSMagic)
                 (Sprintf_v (MSDOSMagic_field (decode_Header b))) (Sprintf_v (Data MSDOSMagic)))
     else if LinuxMagic_field (decode_Header b) \<noteq> Data LinuxMagic
     then Inl (ContentMismatch (Value LinuxMagic)
                 (Sprintf_v (LinuxMagic_field (decode_Header b))) (Sprintf_v (Data LinuxMagic)))
     else if ZImg_field (decode_Header b) \<noteq> Data ZImg
     then Inl (ContentMismatch (Value ZImg)
                 (Sprintf_v (ZImg_field (decode_Header b))) (Sprintf_v (Data ZImg)))
     else if PayloadOffset (decode_Header b) = 0 \<or> PayloadSize (decode_Header b) = 0
     then Inl PayloadZero
     else if unat (PayloadOffset (decode_Header b) + PayloadSize (decode_Header b))
               > length b - Header_size
     then Inl BeyondSize
     else if \<not> ParseBody u
     then Inr \<lparr>header = decode_Header b, body = [], unpacker = u\<rparr>
     else (case ReadAt \<lparr>rd_s = b, rd_i = Header_size\<rparr>
                  (unat (PayloadSize (decode_Header b)))
                  (unat (PayloadOffset (decode_Header b))) of
             (n, sub, Some err) \<Rightarrow> Inl err
           | (n, sub, None) \<Rightarrow>
              if n = 0 then Inl InvalidSeekZero
              else Inr \<lparr>header = decode_Header b, body = sub, unpacker = u\<rparr>))"
proof -
  have len: "Len \<lparr>rd_s = b, rd_i = Header_size\<rparr> = length b - Header_size"
    using assms by (simp add: Len_def)
  show ?thesis
    unfolding ReadInfo_def
    by (simp add: binary_Read_full [OF assms] decode_Header_take len Let_def verify_eq
        split: option.split prod.split)
qed

lemma ReadInfo_full:
  assumes "Header_size \<le> length b"
  shows "fst (ReadInfo u (Some (NewReader b))) =
    (if MSDOSMagic_field (decode_Header b) \<noteq> Data MSDOSMagic
     then Inl (ContentMismatch (Value MSDOSMagic)
                 (Sprintf_v (MSDOSMagic_field (decode_Header b))) (Sprintf_v (Data MSDOSMagic)))
     else if LinuxMagic_field (decode_Header b) \<noteq> Data LinuxMagic
     then Inl (ContentMismatch (Value LinuxMagic)
                 (Sprintf_v (LinuxMagic_field (decode_Header b))) (Sprintf_v (Data LinuxMagic)))
     else if ZImg_field (decode_Header b) \<noteq> Data ZImg
     then Inl (ContentMismatch (Value ZImg)
                 (Sprintf_v (ZImg_field (decode_Header b))) (Sprintf_v (Data ZImg)))
     else if PayloadOffset (decode_Header b) = 0 \<or> PayloadSize (decode_Header b) = 0
     then Inl PayloadZero
     else if unat (PayloadOffset (decode_Header b) + PayloadSize (decode_Header b))
               > length b - Header_size
     then Inl BeyondSize
     else if \<not> ParseBody u
     then Inr \<lparr>header = decode_Header b, body = [], unpacker = u\<rparr>
     else if length b < unat (PayloadOffset (decode_Header b)) + unat (PayloadSize (decode_Header b))
     then Inl EOF
     else Inr \<lparr>header = decode_Header b,
               body = take (unat (PayloadSize (decode_Header b)))
                        (drop (unat (PayloadOffset (decode_Header b))) b),
               unpacker = u\<rparr>)"
proof (cases "length b < unat (PayloadOffset (decode_Header b)) + unat (PayloadSize (decode_Header b))")
  case True
  then show ?thesis
    by (simp add: ReadInfo_after_header [OF assms] ReadAt_beyond [OF True])
next
  case False
  show ?thesis
  proof (cases "PayloadSize (decode_Header b) = 0")
    case True
    then show ?thesis
      by (simp add: ReadInfo_after_header [OF assms])
  next
    case nz: False
    then have pos: "0 < unat (PayloadSize (decode_Header b))"
      by (simp add: unat_gt_0)
    from False have le:
      "unat (PayloadOffset (decode_Header b)) + unat (PayloadSize (decode_Header b)) \<le> length b"
      by simp
    from False pos show ?thesis
      by (simp add: ReadInfo_after_header [OF assms] ReadAt_in_range [OF le pos])
  qed
qed

section \<open>Decoding\<close>

lemma binary_Read_short:
  "length b < Header_size \<Longrightarrow>
   binary_Read (NewReader b)
     = (Inl (if b = [] then EOF else ErrUnexpectedEOF), \<lparr>rd_s = b, rd_i = length b\<rparr>)"
  by (auto simp: binary_Read_def ReadFull_def Len_def NewReader_def Let_def)

lemma ReadInfo_short:
  "length b < Header_size \<Longrightarrow>
   fst (ReadInfo u (Some (NewReader b))) = Inl (if b = [] then EOF else ErrUnexpectedEOF)"
  by (simp add: ReadInfo_def binary_Read_short)

lemma decode_Header_fields:
  "MSDOSMagic_field (decode_Header b) = take 2 b"
  "ZImg_field (decode_Header b) = take 4 (drop 4 b)"
  "LinuxMagic_field (decode_Header b) = take 4 (drop 56 b)"
  "PayloadOffset (decode_Header b) = le_uint32 (take 4 (drop 8 b))"
  "PayloadSize (decode_Header b) = le_uint32 (take 4 (drop 12 b))"
  "CompressionType (decode_Header b) = take 32 (drop 24 b)"
  by (simp_all add: decode_Header_def)

lemma Value_registry:
  "Value MSDOSMagic = ''MZ''" "Value LinuxMagic = ''Linux''" "Value ZImg = ''zimg''"
  by (simp_all add: Value_def MSDOSMagic_def LinuxMagic_def ZImg_def)

lemma le_uint32_simps:
  "le_uint32 [255, 255, 255, 255] = 4294967295"
  "le_uint32 [2, 0, 0, 0] = 2"
  "le_uint32 [4, 0, 0, 0] = 4"
  "le_uint32 [36, 0, 0, 0] = 36"
  "le_uint32 [64, 0, 0, 0] = 64"
  "le_uint32 [0, 0, 0, 0] = 0"
  by (simp_all add: le_uint32_def)

text \<open>
  C5. For every buffer shorter than the fixed header length (64 bytes), \<^verbatim>\<open>ReadInfo\<close> fails
  with one of the two truncated-input errors of \<^verbatim>\<open>io.ReadFull\<close>: \<open>EOF\<close> for the empty
  buffer, \<open>ErrUnexpectedEOF\<close> otherwise. The result is an error value, not a panic, and no
  \<^verbatim>\<open>BootInfo\<close> is produced.
\<close>

theorem ReadInfo_truncated:
  "length b < Header_size \<Longrightarrow>
   fst (ReadInfo u (Some (NewReader b))) = Inl (if b = [] then EOF else ErrUnexpectedEOF)"
  by (rule ReadInfo_short)

theorem ReadInfo_truncated_witness:
  "length [77, 90 :: byte] < Header_size
   \<and> fst (ReadInfo \<lparr>Decompress = False, ParseBody = True\<rparr> (Some (NewReader [77, 90])))
       = (Inl ErrUnexpectedEOF :: (unit, unit) error + BootInfo)"
proof -
  have h: "length [77, 90 :: byte] < Header_size"
    by (simp add: Header_size_64)
  show ?thesis
    using h ReadInfo_truncated [OF h, of "\<lparr>Decompress = False, ParseBody = True\<rparr>"]
    by simp
qed

text \<open>
  C8. For every buffer that holds a full header whose three magic fields are valid, if the
  payload offset or the payload size is zero, whichever of the two, \<^verbatim>\<open>ReadInfo\<close> fails with
  the error \<^verbatim>\<open>"payload size/offset is zero"\<close> and produces no \<^verbatim>\<open>BootInfo\<close>.
\<close>

theorem ReadInfo_zero_payload:
  assumes "Header_size \<le> length b"
    and "take 2 b = Data MSDOSMagic"
    and "take 4 (drop 4 b) = Data ZImg"
    and "take 4 (drop 56 b) = Data LinuxMagic"
    and "le_uint32 (take 4 (drop 8 b)) = 0 \<or> le_uint32 (take 4 (drop 12 b)) = 0"
  shows "fst (ReadInfo u (Some (NewReader b))) = Inl PayloadZero"
  using assms(2-) by (auto simp: ReadInfo_full [OF assms(1)] decode_Header_fields)

theorem ReadInfo_zero_payload_witness:
  "Header_size \<le> length zero_offset_buf
   \<and> take 2 zero_offset_buf = Data MSDOSMagic
   \<and> take 4 (drop 4 zero_offset_buf) = Data ZImg
   \<and> take 4 (drop 56 zero_offset_buf) = Data LinuxMagic
   \<and> (le_uint32 (take 4 (drop 8 zero_offset_buf)) = 0
        \<or> le_uint32 (take 4 (drop 12 zero_offset_buf)) = 0)
   \<and> fst (ReadInfo \<lparr>Decompress = False, ParseBody = True\<rparr> (Some (NewReader zero_offset_buf)))
       = (Inl PayloadZero :: (unit, unit) error + BootInfo)"
proof -
  have h1: "Header_size \<le> length zero_offset_buf" by code_simp
  have h2: "take 2 zero_offset_buf = Data MSDOSMagic" by code_simp
  have h3: "take 4 (drop 4 zero_offset_buf) = Data ZImg" by code_simp
  have h4: "take 4 (drop 56 zero_offset_buf) = Data LinuxMagic" by code_simp
  have h5: "le_uint32 (take 4 (drop 8 zero_offset_buf)) = 0
      \<or> le_uint32 (take 4 (drop 12 zero_offset_buf)) = 0" by code_simp
  show ?thesis
    using h1 h2 h3 h4 h5 ReadInfo_zero_payload [OF h1 h2 h3 h4 h5]
    by blast
qed

text \<open>
  C2. Whenever \<^verbatim>\<open>ReadInfo\<close> with body extraction requested succeeds on a buffer, the header
  of the result is the decoded header of the buffer and the body is the byte range
  \<open>[PayloadOffset, PayloadOffset + PayloadSize)\<close> of the buffer: the range lies within the
  buffer, the body has \<open>PayloadSize\<close> bytes, and its bytes are the buffer's bytes at those
  positions.
\<close>

theorem ReadInfo_body_range:
  assumes "fst (ReadInfo u (Some (NewReader b))) = Inr info" and "ParseBody u"
  shows "header info = decode_Header b
    \<and> unat (PayloadOffset (header info)) + unat (PayloadSize (header info)) \<le> length b
    \<and> length (body info) = unat (PayloadSize (header info))
    \<and> body info = take (unat (PayloadSize (header info)))
                      (drop (unat (PayloadOffset (header info))) b)
    \<and> (\<forall>k < unat (PayloadSize (header info)).
          body info ! k = b ! (unat (PayloadOffset (header info)) + k))"
proof (cases "length b < Header_size")
  case True
  with assms(1) show ?thesis
    by (simp add: ReadInfo_short)
next
  case False
  then have len: "Header_size \<le> length b" by simp
  from assms have "info = \<lparr>header = decode_Header b,
      body = take (unat (PayloadSize (decode_Header b)))
               (drop (unat (PayloadOffset (decode_Header b))) b),
      unpacker = u\<rparr>"
    and "unat (PayloadOffset (decode_Header b)) + unat (PayloadSize (decode_Header b))
      \<le> length b"
    by (simp_all add: ReadInfo_full [OF len] split: if_splits)
  then show ?thesis
    by simp
qed

theorem ReadInfo_body_range_witness:
  "fst (ReadInfo \<lparr>Decompress = False, ParseBody = True\<rparr> (Some (NewReader payload_buf)))
     = (Inr \<lparr>header = decode_Header payload_buf, body = [1, 2, 3, 4],
             unpacker = \<lparr>Decompress = False, ParseBody = True\<rparr>\<rparr>
         :: (unit, unit) error + BootInfo)
   \<and> ParseBody \<lparr>Decompress = False, ParseBody = True\<rparr>
   \<and> unat (PayloadOffset (decode_Header payload_buf)) = 64
   \<and> unat (PayloadSize (decode_Header payload_buf)) = 4
   \<and> [1, 2, 3, 4] = take 4 (drop 64 payload_buf)"
proof -
  have p: "length payload_buf = 132"
    "PayloadOffset (decode_Header payload_buf) = 64"
    "PayloadSize (decode_Header payload_buf) = 4"
    "MSDOSMagic_field (decode_Header payload_buf) = Data MSDOSMagic"
    "LinuxMagic_field (decode_Header payload_buf) = Data LinuxMagic"
    "ZImg_field (decode_Header payload_buf) = Data ZImg"
    "take 4 (drop 64 payload_buf) = [1, 2, 3, 4]"
    by (simp_all add: decode_Header_fields payload_buf_def le_uint32_simps
        Data_MSDOSMagic Data_LinuxMagic Data_ZImg)
  have h1: "fst (ReadInfo \<lparr>Decompress = False, ParseBody = True\<rparr> (Some (NewReader payload_buf)))
     = (Inr \<lparr>header = decode_Header payload_buf, body = [1, 2, 3, 4],
             unpacker = \<lparr>Decompress = False, ParseBody = True\<rparr>\<rparr>
         :: (unit, unit) error + BootInfo)"
    by (simp add: ReadInfo_full Header_size_64 p)
  have h2: "ParseBody \<lparr>Decompress = False, ParseBody = True\<rparr>"
    by simp
  show ?thesis
    using h1 h2 ReadInfo_body_range [OF h1 h2]
    by (simp add: p)
qed

text \<open>
  C3, as the code has it. The magic fields are validated in the order DOS magic, Linux magic,
  zimg tag: for every buffer that holds a full header whose DOS magic is \<open>MZ\<close> and whose zimg
  tag and Linux magic are both wrong, \<^verbatim>\<open>ReadInfo\<close> fails with the content mismatch that
  names the Linux field and carries the observed and the expected Linux magic.
\<close>

theorem ReadInfo_magic_order:
  assumes "Header_size \<le> length b"
    and "take 2 b = Data MSDOSMagic"
    and "take 4 (drop 4 b) \<noteq> Data ZImg"
    and "take 4 (drop 56 b) \<noteq> Data LinuxMagic"
  shows "fst (ReadInfo u (Some (NewReader b)))
    = Inl (ContentMismatch ''Linux'' (Sprintf_v (take 4 (drop 56 b)))
             (Sprintf_v [205, 35, 130, 129]))"
  using assms(2-)
  by (simp add: ReadInfo_full [OF assms(1)] decode_Header_fields Value_registry Data_LinuxMagic)

theorem ReadInfo_magic_order_witness:
  "Header_size \<le> length mismatch_buf
   \<and> take 2 mismatch_buf = Data MSDOSMagic
   \<and> take 4 (drop 4 mismatch_buf) \<noteq> Data ZImg
   \<and> take 4 (drop 56 mismatch_buf) \<noteq> Data LinuxMagic
   \<and> fst (ReadInfo \<lparr>Decompress = False, ParseBody = True\<rparr> (Some (NewReader mismatch_buf)))
       = (Inl (ContentMismatch ''Linux'' (Sprintf_v (take 4 (drop 56 mismatch_buf)))
             (Sprintf_v [205, 35, 130, 129])) :: (unit, unit) error + BootInfo)"
proof -
  have h1: "Header_size \<le> length mismatch_buf" by code_simp
  have h2: "take 2 mismatch_buf = Data MSDOSMagic" by code_simp
  have h3: "take 4 (drop 4 mismatch_buf) \<noteq> Data ZImg" by code_simp
  have h4: "take 4 (drop 56 mismatch_buf) \<noteq> Data LinuxMagic" by code_simp
  show ?thesis
    using h1 h2 h3 h4 ReadInfo_magic_order [OF h1 h2 h3 h4]
    by blast
qed

text \<open>
  C3, as the claim states it, fails: on \<open>mismatch_buf\<close> the DOS magic is \<open>MZ\<close>, the zimg tag
  and the Linux magic are both zero, and the error names the Linux field, not the zimg field.
\<close>

theorem ReadInfo_names_zimg_counterexample:
  "take 2 mismatch_buf = Data MSDOSMagic
   \<and> take 4 (drop 4 mismatch_buf) \<noteq> Data ZImg
   \<and> take 4 (drop 56 mismatch_buf) \<noteq> Data LinuxMagic
   \<and> fst (ReadInfo \<lparr>Decompress = False, ParseBody = False\<rparr> (Some (NewReader mismatch_buf)))
       = (Inl (ContentMismatch ''Linux'' ''[0 0 0 0]'' ''[205 35 130 129]'')
           :: (unit, unit) error + BootInfo)
   \<and> fst (ReadInfo \<lparr>Decompress = False, ParseBody = False\<rparr> (Some (NewReader mismatch_buf)))
       \<noteq> (Inl (ContentMismatch ''zimg'' ''[0 0 0 0]'' ''[122 105 109 103]'')
           :: (unit, unit) error + BootInfo)"
  by code_simp

text \<open>
  C1 at two inputs. On \<open>wrap_buf\<close> (65 bytes, valid magic, payload offset \<open>2^32 - 1\<close>,
  payload size 2) the 32-bit sum wraps to 1, the bounds check passes and \<^verbatim>\<open>ReadInfo\<close>
  without body extraction returns a \<^verbatim>\<open>BootInfo\<close>, although the exact sum is far beyond the
  buffer; with body extraction the failure only shows as the \<open>EOF\<close> of \<^verbatim>\<open>ReadAt\<close>. On \<open>exact_fit_buf\<close> (100 bytes, payload offset 64, payload size 36) the exact sum
  equals the buffer length and \<^verbatim>\<open>ReadInfo\<close> rejects the header as beyond size, because it
  compares with the bytes left after the header.
\<close>

theorem bounds_check_wraps:
  "length wrap_buf = 65
   \<and> unat (PayloadOffset (decode_Header wrap_buf)) = 4294967295
   \<and> unat (PayloadSize (decode_Header wrap_buf)) = 2
   \<and> fst (ReadInfo \<lparr>Decompress = False, ParseBody = False\<rparr> (Some (NewReader wrap_buf)))
       = (Inr \<lparr>header = decode_Header wrap_buf, body = [],
               unpacker = \<lparr>Decompress = False, ParseBody = False\<rparr>\<rparr>
           :: (unit, unit) error + BootInfo)
   \<and> fst (ReadInfo \<lparr>Decompress = False, ParseBody = True\<rparr> (Some (NewReader wrap_buf)))
       = (Inl EOF :: (unit, unit) error + BootInfo)
   \<and> length exact_fit_buf = 100
   \<and> unat (PayloadOffset (decode_Header exact_fit_buf)) = 64
   \<and> unat (PayloadSize (decode_Header exact_fit_buf)) = 36
   \<and> fst (ReadInfo \<lparr>Decompress = False, ParseBody = False\<rparr> (Some (NewReader exact_fit_buf)))
       = (Inl BeyondSize :: (unit, unit) error + BootInfo)"
proof -
  have w: "length wrap_buf = 65"
    "PayloadOffset (decode_Header wrap_buf) = 4294967295"
    "PayloadSize (decode_Header wrap_buf) = 2"
    "MSDOSMagic_field (decode_Header wrap_buf) = Data MSDOSMagic"
    "LinuxMagic_field (decode_Header wrap_buf) = Data LinuxMagic"
    "ZImg_field (decode_Header wrap_buf) = Data ZImg"
    by (simp_all add: decode_Header_fields wrap_buf_def le_uint32_simps
        Data_MSDOSMagic Data_LinuxMagic Data_ZImg)
  have e: "length exact_fit_buf = 100"
    "PayloadOffset (decode_Header exact_fit_buf) = 64"
    "PayloadSize (decode_Header exact_fit_buf) = 36"
    "MSDOSMagic_field (decode_Header exact_fit_buf) = Data MSDOSMagic"
    "LinuxMagic_field (decode_Header exact_fit_buf) = Data LinuxMagic"
    "ZImg_field (decode_Header exact_fit_buf) = Data ZImg"
    by (simp_all add: decode_Header_fields exact_fit_buf_def le_uint32_simps
        Data_MSDOSMagic Data_LinuxMagic Data_ZImg)
  have "fst (ReadInfo \<lparr>Decompress = False, ParseBody = False\<rparr> (Some (NewReader wrap_buf)))
       = (Inr \<lparr>header = decode_Header wrap_buf, body = [],
               unpacker = \<lparr>Decompress = False, ParseBody = False\<rparr>\<rparr>
           :: (unit, unit) error + BootInfo)"
    by (simp add: ReadInfo_full Header_size_64 w)
  moreover
  have "fst (ReadInfo \<lparr>Decompress = False, ParseBody = True\<rparr> (Some (NewReader wrap_buf)))
       = (Inl EOF :: (unit, unit) error + BootInfo)"
    by (simp add: ReadInfo_full Header_size_64 w)
  moreover
  have "fst (ReadInfo \<lparr>Decompress = False, ParseBody = False\<rparr> (Some (NewReader exact_fit_buf)))
       = (Inl BeyondSize :: (unit, unit) error + BootInfo)"
    by (simp add: ReadInfo_full Header_size_64 e)
  ultimately show ?thesis
    by (simp add: w e)
qed

section \<open>Writing\<close>

lemma Write_raw:
  "body info \<noteq> [] \<Longrightarrow> \<not> Decompress (unpacker info) \<Longrightarrow>
   Write info gunzip wr w = (case wr w (body info) of (w', err) \<Rightarrow> (w', map_option WriteError err))"
  by (simp add: Write_def)

lemma known_type_loop_eq:
  "known_type_loop val cs = Inr (\<exists>c \<in> set cs. val = Data c)"
  by (induction cs) (auto simp: verify_eq)

lemma decompress_branch_unknown:
  "CompressionType hdr \<noteq> Data Gzip \<Longrightarrow>
   decompress_branch hdr gunzip sub0 = Inl (UnknownCompressionType (Sprintf_v (CompressionType hdr)))"
  by (simp add: decompress_branch_def Sprintf_v_inj)

lemma decompress_branch_gzip:
  "CompressionType hdr = Data Gzip \<Longrightarrow>
   decompress_branch hdr gunzip sub0 =
     (case gunzip (elems sub0) of
        Inl err \<Rightarrow> Inl (DecompressError err)
      | Inr sub \<Rightarrow>
         if length (elems sub) < 56 then Inl (InvalidResponsePayload (length (elems sub)))
         else if length (elems sub) + length (spare sub) < 60
         then Inl (PanicSliceBounds 60 (length (elems sub) + length (spare sub)))
         else if drop 56 (take 60 (elems sub @ spare sub)) = Data ARM
               \<or> drop 56 (take 60 (elems sub @ spare sub)) = Data RISC
         then Inr sub
         else Inl (UnknownPayloadType (drop 56 (take 60 (elems sub @ spare sub)))))"
  by (simp add: decompress_branch_def known_type_loop_eq slice_expr_def ARM64MagicOffset_def
      Let_def split: sum.split)

lemma Data_Gzip_32: "Data Gzip \<noteq> replicate 32 0"
proof
  assume "Data Gzip = replicate 32 0"
  then have "Data Gzip ! 0 = replicate 32 (0::byte) ! 0" by simp
  then show False by (simp add: Data_Gzip)
qed

lemma Write_decompress:
  "body info \<noteq> [] \<Longrightarrow> Decompress (unpacker info) \<Longrightarrow>
   Write info gunzip wr w =
     (case decompress_branch (header info) gunzip \<lparr>elems = body info, spare = []\<rparr> of
        Inl err \<Rightarrow> (w, Some err)
      | Inr sub \<Rightarrow> (case wr w (elems sub) of (w', err) \<Rightarrow> (w', map_option WriteError err)))"
  by (simp add: Write_def Let_def)

text \<open>
  C9. For every \<^verbatim>\<open>BootInfo\<close> with a non-empty body and decompression not requested,
  \<^verbatim>\<open>Write\<close> makes one call of the sink's write method, with exactly the stored body bytes,
  and returns what that call returned; the decompressor plays no part and nothing is sniffed.
  On a sink that records its calls, the record grows by the body, once.
\<close>

theorem Write_raw_body:
  assumes "body info \<noteq> []" and "\<not> Decompress (unpacker info)"
  shows "Write info gunzip (wr :: 'k \<Rightarrow> byte list \<Rightarrow> 'k \<times> 'w option) w
           = (case wr w (body info) of (w', err) \<Rightarrow> (w', map_option WriteError err))
    \<and> Write info gunzip (\<lambda>calls bs. (calls @ [bs], (resp :: byte list \<Rightarrow> 'w option) bs)) calls0
           = (calls0 @ [body info], map_option WriteError (resp (body info)))"
  using assms by (simp add: Write_raw)

theorem Write_raw_body_witness:
  "body (info_with (Data Gzip) False) \<noteq> []
   \<and> \<not> Decompress (unpacker (info_with (Data Gzip) False))
   \<and> Write (info_with (Data Gzip) False) (gunzip_to 0 []) log_sink [] = ([1] # [], None)"
proof -
  have h1: "body (info_with (Data Gzip) False) \<noteq> []"
    by (simp add: info_with_def)
  have h2: "\<not> Decompress (unpacker (info_with (Data Gzip) False))"
    by (simp add: info_with_def)
  have h3: "body (info_with (Data Gzip) False) = [1]"
    by (simp add: info_with_def)
  show ?thesis
    using h1 h2
      Write_raw_body [OF h1 h2, of "gunzip_to 0 []" log_sink "[]" "\<lambda>bs. None" "[]"]
    by (simp add: h3 log_sink_def)
qed

text \<open>
  C6. For every \<^verbatim>\<open>BootInfo\<close> with a non-empty body and decompression requested, \<^verbatim>\<open>Write\<close>
  fails with the unknown-compression-type error exactly when the compression type field
  differs from the bytes of \<open>gzip\<close> followed by 28 zero bytes; the error then carries the
  rendering of the field and the sink is left as it was. An all-zero field fails this way.
\<close>

theorem Write_unknown_compression:
  assumes "body info \<noteq> []" and "Decompress (unpacker info)"
  shows "((\<exists>t. snd (Write info gunzip wr w) = Some (UnknownCompressionType t))
            \<longleftrightarrow> CompressionType (header info) \<noteq> [103, 122, 105, 112] @ replicate 28 0)
    \<and> (CompressionType (header info) \<noteq> [103, 122, 105, 112] @ replicate 28 0 \<longrightarrow>
         Write info gunzip wr w
           = (w, Some (UnknownCompressionType (Sprintf_v (CompressionType (header info))))))
    \<and> (CompressionType (header info) = replicate 32 0 \<longrightarrow>
         Write info gunzip wr w = (w, Some (UnknownCompressionType (Sprintf_v (replicate 32 0)))))"
proof -
  have unknown: "Write info gunzip wr w
      = (w, Some (UnknownCompressionType (Sprintf_v (CompressionType (header info)))))"
    if "CompressionType (header info) \<noteq> Data Gzip"
    using that by (simp add: Write_decompress [OF assms] decompress_branch_unknown)
  have known: "snd (Write info gunzip wr w) \<noteq> Some (UnknownCompressionType t)"
    if "CompressionType (header info) = Data Gzip" for t
    using that
    by (auto simp: Write_decompress [OF assms] decompress_branch_gzip
        split: sum.split prod.split)
  have g: "[103, 122, 105, 112] @ replicate 28 0 = Data Gzip"
    by (simp add: Data_Gzip)
  have z: "CompressionType (header info) \<noteq> Data Gzip"
    if "CompressionType (header info) = replicate 32 0"
    using that Data_Gzip_32 by simp
  show ?thesis
    unfolding g
  proof (intro conjI impI)
    show "(\<exists>t. snd (Write info gunzip wr w) = Some (UnknownCompressionType t))
        \<longleftrightarrow> CompressionType (header info) \<noteq> Data Gzip"
      using unknown known by (cases "CompressionType (header info) = Data Gzip") auto
  next
    assume "CompressionType (header info) \<noteq> Data Gzip"
    then show "Write info gunzip wr w
        = (w, Some (UnknownCompressionType (Sprintf_v (CompressionType (header info)))))"
      by (rule unknown)
  next
    assume e: "CompressionType (header info) = replicate 32 0"
    from unknown [OF z [OF e]] e
    show "Write info gunzip wr w
        = (w, Some (UnknownCompressionType (Sprintf_v (replicate 32 0))))"
      by simp
  qed
qed

theorem Write_unknown_compression_witness:
  "body (info_with (replicate 32 0) True) \<noteq> []
   \<and> Decompress (unpacker (info_with (replicate 32 0) True))
   \<and> Write (info_with (replicate 32 0) True) (gunzip_to 0 []) log_sink []
       = ([], Some (UnknownCompressionType (Sprintf_v (replicate 32 0))))"
proof -
  have h1: "body (info_with (replicate 32 0) True) \<noteq> []"
    by (simp add: info_with_def)
  have h2: "Decompress (unpacker (info_with (replicate 32 0) True))"
    by (simp add: info_with_def)
  have h3: "CompressionType (header (info_with (replicate 32 0) True)) = replicate 32 0"
    by (simp add: info_with_def)
  show ?thesis
    using h1 h2 h3 Write_unknown_compression [OF h1 h2, of "gunzip_to 0 []" log_sink "[]"]
    by blast
qed

text \<open>
  C4 at a payload of 56 bytes. The length guard \<open>subSize < 56\<close> passes and the slice
  expression \<^verbatim>\<open>sub[56:60]\<close> takes four bytes that lie beyond the payload: with the spare
  capacity \<^verbatim>\<open>io.ReadAll\<close> leaves (zero bytes) the sniff reports the unknown payload type
  \<open>[0, 0, 0, 0]\<close> instead of a payload too short; with no spare capacity the slice expression
  panics; and with the bytes of \<open>ARM\<close> in the spare capacity the sniff accepts a payload that
  has no byte at offset 56.
\<close>

theorem sniff_reads_past_payload:
  "Write (info_with (Data Gzip) True) (gunzip_to 56 (replicate 456 0)) log_sink []
     = ([], Some (UnknownPayloadType [0, 0, 0, 0]))
   \<and> Write (info_with (Data Gzip) True) (gunzip_to 56 []) log_sink []
     = ([], Some (PanicSliceBounds 60 56))
   \<and> Write (info_with (Data Gzip) True) (gunzip_to 56 [65, 82, 77, 100]) log_sink []
     = ([replicate 56 0], None)"
proof -
  have i: "body (info_with (Data Gzip) True) \<noteq> []"
    "Decompress (unpacker (info_with (Data Gzip) True))"
    "CompressionType (header (info_with (Data Gzip) True)) = Data Gzip"
    by (simp_all add: info_with_def)
  have r: "replicate 4 (0::byte) = [0, 0, 0, 0]"
    by (simp add: numeral_eq_Suc)
  show ?thesis
    by (simp add: Write_decompress [OF i(1,2)] decompress_branch_gzip [OF i(3)]
        gunzip_to_def log_sink_def Data_ARM Data_RISC r)
qed

section \<open>The unchecked header regions\<close>

lemma slice_agree:
  assumes "length a = length b"
    and "\<And>i. j \<le> i \<Longrightarrow> i < j + k \<Longrightarrow> i < length a \<Longrightarrow> a ! i = b ! i"
  shows "take k (drop j a) = take k (drop j (b :: 'a list))"
proof (rule nth_equalityI)
  show "length (take k (drop j a)) = length (take k (drop j b))"
    using assms(1) by simp
next
  fix i
  assume "i < length (take k (drop j a))"
  then have "i < k" and "j + i < length a"
    by auto
  with assms show "take k (drop j a) ! i = take k (drop j b) ! i"
    by simp
qed

lemma checked_fields_agree:
  assumes "differ_only_unchecked a b"
  shows "take 2 a = take 2 b"
    and "take 4 (drop 4 a) = take 4 (drop 4 b)"
    and "take 4 (drop 8 a) = take 4 (drop 8 b)"
    and "take 4 (drop 12 a) = take 4 (drop 12 b)"
    and "take 4 (drop 56 a) = take 4 (drop 56 b)"
proof -
  from assms have len: "length a = length b"
    and eq: "\<And>i. i < length a \<Longrightarrow> i \<notin> unchecked_offsets \<Longrightarrow> a ! i = b ! i"
    by (simp_all add: differ_only_unchecked_def)
  have "take 2 (drop 0 a) = take 2 (drop 0 b)"
    by (rule slice_agree [OF len]) (rule eq, simp_all add: unchecked_offsets_def)
  then show "take 2 a = take 2 b" by simp
  show "take 4 (drop 4 a) = take 4 (drop 4 b)"
    by (rule slice_agree [OF len]) (rule eq, simp_all add: unchecked_offsets_def)
  show "take 4 (drop 8 a) = take 4 (drop 8 b)"
    by (rule slice_agree [OF len]) (rule eq, simp_all add: unchecked_offsets_def)
  show "take 4 (drop 12 a) = take 4 (drop 12 b)"
    by (rule slice_agree [OF len]) (rule eq, simp_all add: unchecked_offsets_def)
  show "take 4 (drop 56 a) = take 4 (drop 56 b)"
    by (rule slice_agree [OF len]) (rule eq, simp_all add: unchecked_offsets_def)
qed

lemma payload_agree:
  assumes "differ_only_unchecked a b"
    and "\<forall>i \<in> unchecked_offsets. i < j \<or> j + k \<le> i"
  shows "take k (drop j a) = take k (drop j b)"
proof -
  from assms(1) have len: "length a = length b"
    and eq: "\<And>i. i < length a \<Longrightarrow> i \<notin> unchecked_offsets \<Longrightarrow> a ! i = b ! i"
    by (simp_all add: differ_only_unchecked_def)
  show ?thesis
  proof (rule slice_agree [OF len])
    fix i
    assume "j \<le> i" "i < j + k" "i < length a"
    with assms(2) have "i \<notin> unchecked_offsets"
      by (meson leD)
    with \<open>i < length a\<close> show "a ! i = b ! i"
      by (rule eq)
  qed
qed

lemma differ_only_unchecked_I:
  assumes len: "length a = length b"
    and "take 2 a = take 2 b"
    and "take 12 (drop 4 a) = take 12 (drop 4 b)"
    and "take 36 (drop 24 a) = take 36 (drop 24 b)"
    and "drop 64 a = drop 64 b"
  shows "differ_only_unchecked a b"
  unfolding differ_only_unchecked_def
proof (intro conjI allI impI)
  show "length a = length b" by (rule len)
next
  fix i
  assume i: "i < length a" "i \<notin> unchecked_offsets"
  then consider "i < 2" | "4 \<le> i" "i < 16" | "24 \<le> i" "i < 60" | "64 \<le> i"
    by (auto simp: unchecked_offsets_def) linarith
  then show "a ! i = b ! i"
  proof cases
    case 1
    then have "a ! i = take 2 a ! i" "b ! i = take 2 b ! i"
      by simp_all
    with assms(2) show ?thesis by simp
  next
    case 2
    with i len have "a ! i = take 12 (drop 4 a) ! (i - 4)" "b ! i = take 12 (drop 4 b) ! (i - 4)"
      by simp_all
    with assms(3) show ?thesis by simp
  next
    case 3
    with i len have "a ! i = take 36 (drop 24 a) ! (i - 24)" "b ! i = take 36 (drop 24 b) ! (i - 24)"
      by simp_all
    with assms(4) show ?thesis by simp
  next
    case 4
    with i len have "a ! i = drop 64 a ! (i - 64)" "b ! i = drop 64 b ! (i - 64)"
      by simp_all
    with assms(5) show ?thesis by simp
  qed
qed

text \<open>
  C10, as the code has it. For any two buffers of equal length that differ only in the
  reserved bytes (offsets 2-3 and 16-23) and the PE header offset (offsets 60-63),
  \<^verbatim>\<open>ReadInfo\<close> with the same options fails on both with the same error or succeeds on both
  with the same payload offset and size. The bodies are identical if no body was requested
  or if the payload range \<open>[PayloadOffset, PayloadOffset + PayloadSize)\<close> holds none of those
  offsets; the payload is read at its absolute offset in the buffer, which may lie inside
  the header.
\<close>

theorem ReadInfo_unchecked_regions:
  assumes "differ_only_unchecked a b"
  shows "(case fst (ReadInfo u (Some (NewReader a))) :: ('d, 'w) error + BootInfo of
            Inl err \<Rightarrow> fst (ReadInfo u (Some (NewReader b))) = Inl err
          | Inr ia \<Rightarrow>
             (\<exists>ib. fst (ReadInfo u (Some (NewReader b))) = Inr ib
                \<and> PayloadOffset (header ib) = PayloadOffset (header ia)
                \<and> PayloadSize (header ib) = PayloadSize (header ia)
                \<and> (\<not> ParseBody u
                     \<or> (\<forall>i \<in> unchecked_offsets.
                           i < unat (PayloadOffset (header ia))
                           \<or> unat (PayloadOffset (header ia)) + unat (PayloadSize (header ia)) \<le> i)
                    \<longrightarrow> body ib = body ia)))"
proof -
  from assms have len: "length a = length b"
    by (simp add: differ_only_unchecked_def)
  show ?thesis
  proof (cases "length a < Header_size")
    case True
    with len show ?thesis
      by (auto simp: ReadInfo_short)
  next
    case False
    then have la: "Header_size \<le> length a" and lb: "Header_size \<le> length b"
      using len by simp_all
    have f: "MSDOSMagic_field (decode_Header a) = MSDOSMagic_field (decode_Header b)"
      "ZImg_field (decode_Header a) = ZImg_field (decode_Header b)"
      "LinuxMagic_field (decode_Header a) = LinuxMagic_field (decode_Header b)"
      "PayloadOffset (decode_Header a) = PayloadOffset (decode_Header b)"
      "PayloadSize (decode_Header a) = PayloadSize (decode_Header b)"
      using checked_fields_agree [OF assms] by (simp_all add: decode_Header_fields)
    have p: "take (unat (PayloadSize (decode_Header b))) (drop (unat (PayloadOffset (decode_Header b))) a)
        = take (unat (PayloadSize (decode_Header b))) (drop (unat (PayloadOffset (decode_Header b))) b)"
      if "\<forall>i \<in> unchecked_offsets.
            i < unat (PayloadOffset (decode_Header b))
            \<or> unat (PayloadOffset (decode_Header b)) + unat (PayloadSize (decode_Header b)) \<le> i"
      using assms that by (rule payload_agree)
    show ?thesis
      using p by (simp add: ReadInfo_full [OF la] ReadInfo_full [OF lb] f len)
  qed
qed

theorem ReadInfo_unchecked_regions_witness:
  "differ_only_unchecked payload_buf payload_buf_alt
   \<and> payload_buf \<noteq> payload_buf_alt
   \<and> map_sum id body
         (fst (ReadInfo \<lparr>Decompress = False, ParseBody = True\<rparr> (Some (NewReader payload_buf))))
       = (Inr [1, 2, 3, 4] :: (unit, unit) error + byte list)
   \<and> map_sum id body
         (fst (ReadInfo \<lparr>Decompress = False, ParseBody = True\<rparr> (Some (NewReader payload_buf_alt))))
       = (Inr [1, 2, 3, 4] :: (unit, unit) error + byte list)"
proof -
  have h: "differ_only_unchecked payload_buf payload_buf_alt"
    by (rule differ_only_unchecked_I) (simp_all add: payload_buf_def payload_buf_alt_def)
  have ne: "payload_buf \<noteq> payload_buf_alt"
    by (simp add: payload_buf_def payload_buf_alt_def)
  have p: "length payload_buf = 132"
    "PayloadOffset (decode_Header payload_buf) = 64"
    "PayloadSize (decode_Header payload_buf) = 4"
    "MSDOSMagic_field (decode_Header payload_buf) = Data MSDOSMagic"
    "LinuxMagic_field (decode_Header payload_buf) = Data LinuxMagic"
    "ZImg_field (decode_Header payload_buf) = Data ZImg"
    "take 4 (drop 64 payload_buf) = [1, 2, 3, 4]"
    by (simp_all add: decode_Header_fields payload_buf_def le_uint32_simps
        Data_MSDOSMagic Data_LinuxMagic Data_ZImg)
  have a: "fst (ReadInfo \<lparr>Decompress = False, ParseBody = True\<rparr> (Some (NewReader payload_buf)))
     = (Inr \<lparr>header = decode_Header payload_buf, body = [1, 2, 3, 4],
             unpacker = \<lparr>Decompress = False, ParseBody = True\<rparr>\<rparr>
         :: (unit, unit) error + BootInfo)"
    by (simp add: ReadInfo_full Header_size_64 p)
  have d: "\<forall>i \<in> unchecked_offsets. i < 64 \<or> 64 + 4 \<le> i"
    by (auto simp: unchecked_offsets_def)
  from ReadInfo_unchecked_regions [OF h, where 'd = unit and 'w = unit,
      of "\<lparr>Decompress = False, ParseBody = True\<rparr>"]
  obtain ib where
    "fst (ReadInfo \<lparr>Decompress = False, ParseBody = True\<rparr> (Some (NewReader payload_buf_alt)))
       = (Inr ib :: (unit, unit) error + BootInfo)"
    and "body ib = [1, 2, 3, 4]"
    using d by (auto simp: a p)
  with h ne a show ?thesis
    by simp
qed

text \<open>
  C10, as the claim states it, fails: \<open>overlap_buf_a\<close> and \<open>overlap_buf_b\<close> differ only in
  the reserved bytes 2-3, their payload is those two bytes (offset 2, size 2), and the
  extracted bodies differ.
\<close>

theorem ReadInfo_unchecked_regions_counterexample:
  "differ_only_unchecked overlap_buf_a overlap_buf_b
   \<and> map_sum id body
         (fst (ReadInfo \<lparr>Decompress = False, ParseBody = True\<rparr> (Some (NewReader overlap_buf_a))))
       = (Inr [0, 0] :: (unit, unit) error + byte list)
   \<and> map_sum id body
         (fst (ReadInfo \<lparr>Decompress = False, ParseBody = True\<rparr> (Some (NewReader overlap_buf_b))))
       = (Inr [1, 1] :: (unit, unit) error + byte list)"
proof -
  have h: "differ_only_unchecked overlap_buf_a overlap_buf_b"
    by (rule differ_only_unchecked_I) (simp_all add: overlap_buf_a_def overlap_buf_b_def)
  have a: "length overlap_buf_a = 68"
    "PayloadOffset (decode_Header overlap_buf_a) = 2"
    "PayloadSize (decode_Header overlap_buf_a) = 2"
    "MSDOSMagic_field (decode_Header overlap_buf_a) = Data MSDOSMagic"
    "LinuxMagic_field (decode_Header overlap_buf_a) = Data LinuxMagic"
    "ZImg_field (decode_Header overlap_buf_a) = Data ZImg"
    "take 2 (drop 2 overlap_buf_a) = [0, 0]"
    by (simp_all add: decode_Header_fields overlap_buf_a_def le_uint32_simps
        Data_MSDOSMagic Data_LinuxMagic Data_ZImg)
  have b: "length overlap_buf_b = 68"
    "PayloadOffset (decode_Header overlap_buf_b) = 2"
    "PayloadSize (decode_Header overlap_buf_b) = 2"
    "MSDOSMagic_field (decode_Header overlap_buf_b) = Data MSDOSMagic"
    "LinuxMagic_field (decode_Header overlap_buf_b) = Data LinuxMagic"
    "ZImg_field (decode_Header overlap_buf_b) = Data ZImg"
    "take 2 (drop 2 overlap_buf_b) = [1, 1]"
    by (simp_all add: decode_Header_fields overlap_buf_b_def le_uint32_simps
        Data_MSDOSMagic Data_LinuxMagic Data_ZImg)
  show ?thesis
    by (simp add: h ReadInfo_full Header_size_64 a b)
qed

end
